theory Spec2Isabelle
  imports Main "HOL-Library.Sublist" "HOL-Library.Multiset"
begin

section \<open>The task store of cliToolsBC.py and its history log\<close>

text \<open>
  The program keeps two SQLite tables, \<^verbatim>\<open>tasks\<close> and \<^verbatim>\<open>tasks_history\<close>, and three
  triggers that copy every inserted, updated or deleted row of \<^verbatim>\<open>tasks\<close> into
  \<^verbatim>\<open>tasks_history\<close>. The embedding below keeps both tables as lists of rows in the order
  in which the rows were written, and writes each SQL statement of the source as a
  function on these lists.

  Modelling decisions:
  \<^item> A nullable \<^verbatim>\<open>TEXT\<close> column is a \<open>string option\<close> (\<open>None\<close> is \<^verbatim>\<open>NULL\<close>, Python's
    \<^verbatim>\<open>None\<close>). \<^verbatim>\<open>tasks.title\<close> is \<^verbatim>\<open>NOT NULL\<close>, hence a \<open>string\<close>; the history columns
    \<^verbatim>\<open>title\<close> and \<^verbatim>\<open>task_id\<close> are only ever written by the triggers from a row of
    \<^verbatim>\<open>tasks\<close>, so they carry the same types.
  \<^item> \<^verbatim>\<open>CURRENT_TIMESTAMP\<close> is the wall clock read once per statement. It is the
    parameter \<open>now\<close> of every operation; the text format \<^verbatim>\<open>YYYY-MM-DD HH:MM:SS\<close> orders
    like the number of seconds it denotes, which is what \<open>timestamp\<close> holds.
  \<^item> An \<^verbatim>\<open>INTEGER PRIMARY KEY\<close> column without \<^verbatim>\<open>AUTOINCREMENT\<close> gets, on an insert
    that does not supply it, one more than the largest key in the table, or 1 in an
    empty table. Stored keys are unbounded integers here (SQLite's are 64-bit; the
    program only reaches keys by counting up from 1).
  \<^item> A key that the caller passes is a Python integer of any size. \<^verbatim>\<open>sqlite3\<close> binds it
    as a signed 64-bit integer and raises \<^verbatim>\<open>OverflowError\<close> when it does not fit, before
    the statement runs. A key read back from a table always fits.
  \<^item> The foreign key of \<^verbatim>\<open>tasks_history\<close> is declared but never enforced, since the
    program does not switch \<^verbatim>\<open>PRAGMA foreign_keys\<close> on.
  \<^item> Every function of the source commits before it returns, and a statement that
    raises changes nothing, so an operation maps a database to a result and a database.
\<close>

subsection \<open>Rows and tables\<close>

type_synonym timestamp = nat

record snapshot =
  title :: string
  description :: "string option"
  status :: "string option"
  priority :: "string option"

record task = snapshot +
  id' :: int
  created_at :: timestamp
  updated_at :: timestamp

record history_record = snapshot +
  history_id :: int
  task_id :: int
  operation :: string
  changed_at :: timestamp

record db =
  tasks :: "task list"
  tasks_history :: "history_record list"

definition create_database :: db where
  "create_database = \<lparr>tasks = [], tasks_history = []\<rparr>"

definition snapshot_of :: "'a snapshot_scheme \<Rightarrow> snapshot" where
  "snapshot_of r =
     \<lparr>title = title r, description = description r, status = status r,
      priority = priority r\<rparr>"

datatype error =
    IntegrityError          \<comment> \<open>raised by sqlite3: a constraint failed\<close>
  | OverflowError           \<comment> \<open>raised by sqlite3: the key does not fit in 64 bits\<close>
  | NoTaskFound             \<comment> \<open>\<^verbatim>\<open>No task found with ID ...\<close>, returns False\<close>
  | NoUpdatesProvided       \<comment> \<open>\<^verbatim>\<open>No updates provided.\<close>, returns False\<close>
  | NoHistoryRecordFound    \<comment> \<open>\<^verbatim>\<open>No history record found with ID ...\<close>, returns False\<close>

subsection \<open>The triggers of \<^verbatim>\<open>setup_triggers\<close>\<close>

definition next_rowid :: "int list \<Rightarrow> int" where
  "next_rowid keys = (if keys = [] then 1 else Max (set keys) + 1)"

definition tasks_insert_trigger ::
  "timestamp \<Rightarrow> task \<Rightarrow> history_record list \<Rightarrow> history_record list" where
  "tasks_insert_trigger now NEW hist =
     hist @ [\<lparr>title = title NEW, description = description NEW, status = status NEW,
              priority = priority NEW,
              history_id = next_rowid (map history_id hist), task_id = id' NEW,
              operation = ''INSERT'', changed_at = now\<rparr>]"

definition tasks_update_trigger ::
  "timestamp \<Rightarrow> task \<Rightarrow> history_record list \<Rightarrow> history_record list" where
  "tasks_update_trigger now NEW hist =
     hist @ [\<lparr>title = title NEW, description = description NEW, status = status NEW,
              priority = priority NEW,
              history_id = next_rowid (map history_id hist), task_id = id' NEW,
              operation = ''UPDATE'', changed_at = now\<rparr>]"

definition tasks_delete_trigger ::
  "timestamp \<Rightarrow> task \<Rightarrow> history_record list \<Rightarrow> history_record list" where
  "tasks_delete_trigger now OLD hist =
     hist @ [\<lparr>title = title OLD, description = description OLD, status = status OLD,
              priority = priority OLD,
              history_id = next_rowid (map history_id hist), task_id = id' OLD,
              operation = ''DELETE'', changed_at = now\<rparr>]"

subsection \<open>The SQL statements on \<^verbatim>\<open>tasks\<close>\<close>

text \<open>
  The integers that \<^verbatim>\<open>sqlite3\<close> binds to a \<^verbatim>\<open>?\<close> of a statement: those of a signed 64-bit
  word. A caller's key outside this range makes \<^verbatim>\<open>cursor.execute\<close> raise.
\<close>

definition sqlite_integer :: "int \<Rightarrow> bool" where
  "sqlite_integer i \<longleftrightarrow> - 9223372036854775808 \<le> i \<and> i \<le> 9223372036854775807"

text \<open>
  \<^verbatim>\<open>SELECT id FROM tasks WHERE id = ?\<close> followed by \<^verbatim>\<open>fetchone()\<close>: the first row with
  that key, if any.
\<close>

definition select_task :: "db \<Rightarrow> int \<Rightarrow> task option" where
  "select_task conn i = find (\<lambda>row. id' row = i) (tasks conn)"

text \<open>
  \<^verbatim>\<open>INSERT INTO tasks (...)\<close>, with the key supplied or not. \<^verbatim>\<open>created_at\<close> is never
  in the column list, so it takes its default, the current time; \<^verbatim>\<open>updated_at\<close> is
  set to the current time by the statement. A \<^verbatim>\<open>NULL\<close> title violates \<^verbatim>\<open>NOT NULL\<close> and a
  key already in the table violates the primary key: both raise and insert nothing.
  The insert trigger runs after the row is in.
\<close>

definition insert_into_tasks ::
  "timestamp \<Rightarrow> int option \<Rightarrow> string option \<Rightarrow> string option \<Rightarrow> string option \<Rightarrow>
   string option \<Rightarrow> db \<Rightarrow> (error + int) \<times> db" where
  "insert_into_tasks now key ti de st pr conn =
     (case ti of
        None \<Rightarrow> (Inl IntegrityError, conn)
      | Some t \<Rightarrow>
          (let k = (case key of None \<Rightarrow> next_rowid (map id' (tasks conn)) | Some i \<Rightarrow> i)
           in if k \<in> set (map id' (tasks conn)) then (Inl IntegrityError, conn)
              else
                (let NEW = \<lparr>title = t, description = de, status = st, priority = pr,
                            id' = k, created_at = now, updated_at = now\<rparr>
                 in (Inr k,
                     conn\<lparr>tasks := tasks conn @ [NEW],
                          tasks_history :=
                            tasks_insert_trigger now NEW (tasks_history conn)\<rparr>))))"

text \<open>
  \<^verbatim>\<open>UPDATE tasks SET ... WHERE id = ?\<close>: every row with that key is rewritten by \<open>f\<close>,
  and the update trigger runs once for each rewritten row.
\<close>

fun update_rows ::
  "timestamp \<Rightarrow> int \<Rightarrow> (task \<Rightarrow> task) \<Rightarrow> task list \<Rightarrow> history_record list \<Rightarrow>
   task list \<times> history_record list" where
  "update_rows now i f [] hist = ([], hist)"
| "update_rows now i f (row # rows) hist =
     (if id' row = i
      then (let NEW = f row;
                (rows', hist') =
                   update_rows now i f rows (tasks_update_trigger now NEW hist)
            in (NEW # rows', hist'))
      else (let (rows', hist') = update_rows now i f rows hist
            in (row # rows', hist')))"

definition update_tasks :: "timestamp \<Rightarrow> int \<Rightarrow> (task \<Rightarrow> task) \<Rightarrow> db \<Rightarrow> db" where
  "update_tasks now i f conn =
     (let (rows', hist') = update_rows now i f (tasks conn) (tasks_history conn)
      in conn\<lparr>tasks := rows', tasks_history := hist'\<rparr>)"

text \<open>
  \<^verbatim>\<open>DELETE FROM tasks WHERE id = ?\<close>: every row with that key is removed, and the
  delete trigger runs once for each removed row.
\<close>

fun delete_rows ::
  "timestamp \<Rightarrow> int \<Rightarrow> task list \<Rightarrow> history_record list \<Rightarrow>
   task list \<times> history_record list" where
  "delete_rows now i [] hist = ([], hist)"
| "delete_rows now i (row # rows) hist =
     (if id' row = i
      then delete_rows now i rows (tasks_delete_trigger now row hist)
      else (let (rows', hist') = delete_rows now i rows hist
            in (row # rows', hist')))"

definition delete_from_tasks :: "timestamp \<Rightarrow> int \<Rightarrow> db \<Rightarrow> db" where
  "delete_from_tasks now i conn =
     (let (rows', hist') = delete_rows now i (tasks conn) (tasks_history conn)
      in conn\<lparr>tasks := rows', tasks_history := hist'\<rparr>)"

subsection \<open>The operations\<close>

text \<open>
  \<^verbatim>\<open>add_task(conn, title, description, status='pending', priority='medium')\<close>. The
  defaults belong to the caller's side of the call; the statement receives all four
  values. The function returns \<^verbatim>\<open>cursor.lastrowid\<close>.
\<close>

definition add_task ::
  "db \<Rightarrow> timestamp \<Rightarrow> string option \<Rightarrow> string option \<Rightarrow> string option \<Rightarrow> string option \<Rightarrow>
   (error + int) \<times> db" where
  "add_task conn now ti de st pr = insert_into_tasks now None ti de st pr conn"

text \<open>
  \<^verbatim>\<open>update_task(conn, task_id, title=None, description=None, status=None,
  priority=None)\<close>: an argument that is \<^verbatim>\<open>None\<close> leaves its column alone.
\<close>

definition set_fields ::
  "timestamp \<Rightarrow> string option \<Rightarrow> string option \<Rightarrow> string option \<Rightarrow> string option \<Rightarrow>
   task \<Rightarrow> task" where
  "set_fields now ti de st pr row =
     row\<lparr>title := (case ti of None \<Rightarrow> title row | Some v \<Rightarrow> v),
         description := (case de of None \<Rightarrow> description row | Some v \<Rightarrow> Some v),
         status := (case st of None \<Rightarrow> status row | Some v \<Rightarrow> Some v),
         priority := (case pr of None \<Rightarrow> priority row | Some v \<Rightarrow> Some v),
         updated_at := now\<rparr>"

definition update_task ::
  "db \<Rightarrow> timestamp \<Rightarrow> int \<Rightarrow> string option \<Rightarrow> string option \<Rightarrow> string option \<Rightarrow>
   string option \<Rightarrow> (error + unit) \<times> db" where
  "update_task conn now i ti de st pr =
     (if \<not> sqlite_integer i then (Inl OverflowError, conn)
      else if select_task conn i = None then (Inl NoTaskFound, conn)
      else if ti = None \<and> de = None \<and> st = None \<and> pr = None
        then (Inl NoUpdatesProvided, conn)
      else (Inr (), update_tasks now i (set_fields now ti de st pr) conn))"

definition complete_task :: "db \<Rightarrow> timestamp \<Rightarrow> int \<Rightarrow> (error + unit) \<times> db" where
  "complete_task conn now i = update_task conn now i None None (Some ''completed'') None"

definition delete_task :: "db \<Rightarrow> timestamp \<Rightarrow> int \<Rightarrow> (error + unit) \<times> db" where
  "delete_task conn now i =
     (if \<not> sqlite_integer i then (Inl OverflowError, conn)
      else if select_task conn i = None then (Inl NoTaskFound, conn)
      else (Inr (), delete_from_tasks now i conn))"

text \<open>
  \<^verbatim>\<open>list_tasks(conn, filter_status=None)\<close> prints the rows it selects; the model returns
  them. The filter applies when \<^verbatim>\<open>filter_status\<close> is truthy.
\<close>

definition list_tasks :: "db \<Rightarrow> string option \<Rightarrow> task list" where
  "list_tasks conn filter_status =
     sort_key id'
       (case filter_status of
          None \<Rightarrow> tasks conn
        | Some s \<Rightarrow>
            if s = [] then tasks conn
            else filter (\<lambda>row. status row = Some s) (tasks conn))"

text \<open>
  \<^verbatim>\<open>get_task_history(conn, task_id)\<close>: the rows of that task, \<^verbatim>\<open>ORDER BY changed_at ASC\<close>.
  SQL leaves the order of rows with equal \<^verbatim>\<open>changed_at\<close> open; the model keeps them in
  the order of the table scan, as a stable sort does.
\<close>

definition get_task_history :: "db \<Rightarrow> int \<Rightarrow> error + history_record list" where
  "get_task_history conn i =
     (if \<not> sqlite_integer i then Inl OverflowError
      else Inr (sort_key changed_at (filter (\<lambda>h. task_id h = i) (tasks_history conn))))"

text \<open>
  \<^verbatim>\<open>restore_task_version(conn, history_id)\<close>: the history row is looked up by its key;
  the task is inserted under its old key when it is gone, and rewritten otherwise. The
  \<^verbatim>\<open>task_id\<close> bound in the later statements was read from the table, so it fits.
\<close>

definition select_history :: "db \<Rightarrow> int \<Rightarrow> history_record option" where
  "select_history conn hid = find (\<lambda>h. history_id h = hid) (tasks_history conn)"

definition restore_fields :: "timestamp \<Rightarrow> history_record \<Rightarrow> task \<Rightarrow> task" where
  "restore_fields now h row =
     row\<lparr>title := title h, description := description h, status := status h,
         priority := priority h, updated_at := now\<rparr>"

definition restore_task_version :: "db \<Rightarrow> timestamp \<Rightarrow> int \<Rightarrow> (error + unit) \<times> db" where
  "restore_task_version conn now hid =
     (if \<not> sqlite_integer hid then (Inl OverflowError, conn)
      else
        (case select_history conn hid of
           None \<Rightarrow> (Inl NoHistoryRecordFound, conn)
         | Some h \<Rightarrow>
             if select_task conn (task_id h) = None
             then (case insert_into_tasks now (Some (task_id h)) (Some (title h))
                          (description h) (status h) (priority h) conn of
                     (Inl e, conn') \<Rightarrow> (Inl e, conn')
                   | (Inr k, conn') \<Rightarrow> (Inr (), conn'))
             else (Inr (), update_tasks now (task_id h) (restore_fields now h) conn)))"

subsection \<open>Sequences of commands\<close>

text \<open>
  The commands of the menu loop of \<^verbatim>\<open>main\<close>, each with the clock reading at which it
  runs. \<^verbatim>\<open>list_tasks\<close> and \<^verbatim>\<open>get_task_history\<close> run a \<^verbatim>\<open>SELECT\<close> only, so they leave
  the database as it is, also when the \<^verbatim>\<open>SELECT\<close> raises. A command that returns \<^verbatim>\<open>False\<close> or raises has written
  nothing; the run goes on with the next command, so a caller that stops at an
  exception has seen a prefix of the run.
\<close>

datatype command =
    Add "string option" "string option" "string option" "string option"
  | Edit int "string option" "string option" "string option" "string option"
  | Complete int
  | Delete int
  | ListTasks "string option"
  | History int
  | Restore int

fun execute :: "timestamp \<times> command \<Rightarrow> db \<Rightarrow> db" where
  "execute (now, Add ti de st pr) conn = snd (add_task conn now ti de st pr)"
| "execute (now, Edit i ti de st pr) conn = snd (update_task conn now i ti de st pr)"
| "execute (now, Complete i) conn = snd (complete_task conn now i)"
| "execute (now, Delete i) conn = snd (delete_task conn now i)"
| "execute (now, ListTasks s) conn = conn"
| "execute (now, History i) conn = conn"
| "execute (now, Restore hid) conn = snd (restore_task_version conn now hid)"

definition run :: "(timestamp \<times> command) list \<Rightarrow> db \<Rightarrow> db" where
  "run cmds conn = fold execute cmds conn"

subsection \<open>The most recent history record of a task\<close>

text \<open>
  Among the history rows of task \<open>i\<close>, the one with the highest \<^verbatim>\<open>history_id\<close>.
\<close>

fun latest_record :: "int \<Rightarrow> history_record list \<Rightarrow> history_record option" where
  "latest_record i [] = None"
| "latest_record i (h # hs) =
     (case latest_record i hs of
        None \<Rightarrow> (if task_id h = i then Some h else None)
      | Some g \<Rightarrow> (if task_id h = i \<and> history_id g < history_id h then Some h else Some g))"

subsection \<open>The scenario of the specification\<close>

text \<open>
  The worked example: a task is created and completed (\<open>scenario_live\<close>), then deleted
  (\<open>scenario_deleted\<close>).
\<close>

definition scenario_live :: db where
  "scenario_live =
     run [(10, Add (Some ''Buy milk'') (Some ''2%'') (Some ''pending'') (Some ''high'')),
          (11, Complete 1)] create_database"

definition scenario_deleted :: db where
  "scenario_deleted = run [(12, Delete 1)] scenario_live"

definition first_record :: history_record where
  "first_record =
     \<lparr>title = ''Buy milk'', description = Some ''2%'', status = Some ''pending'',
      priority = Some ''high'', history_id = 1, task_id = 1, operation = ''INSERT'',
      changed_at = 10\<rparr>"

definition second_record :: history_record where
  "second_record =
     \<lparr>title = ''Buy milk'', description = Some ''2%'', status = Some ''completed'',
      priority = Some ''high'', history_id = 2, task_id = 1, operation = ''UPDATE'',
      changed_at = 11\<rparr>"

text \<open>
  A run in which the clock is set back between the two writes.
\<close>

definition clock_set_back :: db where
  "clock_set_back =
     run [(10, Add (Some ''Buy milk'') (Some ''2%'') (Some ''pending'') (Some ''high'')),
          (5, Complete 1)] create_database"

subsection \<open>The store and the log agree\<close>

text \<open>
  The keys of both tables are unique, those of the log increase in append order, and
  every stored task has the snapshot of its most recent history record, which is not a
  \<^verbatim>\<open>DELETE\<close> record.
\<close>

definition faithful :: "db \<Rightarrow> bool" where
  "faithful conn \<longleftrightarrow>
     distinct (map id' (tasks conn)) \<and>
     sorted_wrt (<) (map history_id (tasks_history conn)) \<and>
     (\<forall>t \<in> set (tasks conn).
        case latest_record (id' t) (tasks_history conn) of
          None \<Rightarrow> False
        | Some h \<Rightarrow> snapshot_of h = snapshot_of t \<and> operation h \<noteq> ''DELETE'')"

section \<open>Properties of the statements\<close>

subsection \<open>Keys\<close>

lemma next_rowid_greater: "k \<in> set keys \<Longrightarrow> k < next_rowid keys"
proof -
  assume k: "k \<in> set keys"
  then have "keys \<noteq> []" by auto
  moreover have "k \<le> Max (set keys)" using k by simp
  ultimately show ?thesis by (simp add: next_rowid_def)
qed

lemma next_rowid_fresh: "next_rowid keys \<notin> set keys"
  using next_rowid_greater by blast

lemma find_id_None: "find (\<lambda>row. id' row = i) rows = None \<longleftrightarrow> i \<notin> set (map id' rows)"
  by (induction rows) auto

lemma find_id_Some:
  "find (\<lambda>row. id' row = i) rows = Some row \<Longrightarrow> row \<in> set rows \<and> id' row = i"
  by (induction rows) (auto split: if_splits)

lemma find_id_distinct:
  "distinct (map id' rows) \<Longrightarrow> row \<in> set rows \<Longrightarrow> find (\<lambda>r. id' r = id' row) rows = Some row"
  by (induction rows) (auto simp: rev_image_eqI)

lemma fst_update_rows:
  "fst (update_rows now i f rows hist) = map (\<lambda>r. if id' r = i then f r else r) rows"
  by (induction rows arbitrary: hist) (simp_all add: Let_def split_beta)

lemma update_rows_absent:
  "i \<notin> set (map id' rows) \<Longrightarrow> snd (update_rows now i f rows hist) = hist"
  by (induction rows arbitrary: hist) (simp_all add: Let_def split_beta)

lemma snd_update_rows:
  "distinct (map id' rows) \<Longrightarrow> find (\<lambda>r. id' r = i) rows = Some row \<Longrightarrow>
   snd (update_rows now i f rows hist) = tasks_update_trigger now (f row) hist"
proof (induction rows arbitrary: hist)
  case Nil
  then show ?case by simp
next
  case (Cons r rows)
  show ?case
  proof (cases "id' r = i")
    case True
    with Cons.prems have "row = r" and "i \<notin> set (map id' rows)" by auto
    then show ?thesis using True update_rows_absent [of i rows now f]
      by (simp add: Let_def split_beta)
  next
    case False
    with Cons.prems have "distinct (map id' rows)" and "find (\<lambda>r. id' r = i) rows = Some row"
      by auto
    then show ?thesis using False Cons.IH by (simp add: Let_def split_beta)
  qed
qed

lemma prefix_update_rows: "prefix hist (snd (update_rows now i f rows hist))"
proof (induction rows arbitrary: hist)
  case Nil
  then show ?case by simp
next
  case (Cons r rows)
  have "prefix hist (tasks_update_trigger now (f r) hist)"
    by (simp add: tasks_update_trigger_def)
  then show ?case
    using Cons.IH [of hist] Cons.IH [of "tasks_update_trigger now (f r) hist"]
    by (auto simp: Let_def split_beta intro: prefix_order.trans)
qed

lemma fst_delete_rows:
  "fst (delete_rows now i rows hist) = filter (\<lambda>r. id' r \<noteq> i) rows"
  by (induction rows arbitrary: hist) (simp_all add: Let_def split_beta)

lemma delete_rows_absent:
  "i \<notin> set (map id' rows) \<Longrightarrow> snd (delete_rows now i rows hist) = hist"
  by (induction rows arbitrary: hist) (simp_all add: Let_def split_beta)

lemma snd_delete_rows:
  "distinct (map id' rows) \<Longrightarrow> find (\<lambda>r. id' r = i) rows = Some row \<Longrightarrow>
   snd (delete_rows now i rows hist) = tasks_delete_trigger now row hist"
proof (induction rows arbitrary: hist)
  case Nil
  then show ?case by simp
next
  case (Cons r rows)
  show ?case
  proof (cases "id' r = i")
    case True
    with Cons.prems have "row = r" and "i \<notin> set (map id' rows)" by auto
    then show ?thesis using True delete_rows_absent [of i rows now]
      by (simp add: Let_def split_beta)
  next
    case False
    with Cons.prems have "distinct (map id' rows)" and "find (\<lambda>r. id' r = i) rows = Some row"
      by auto
    then show ?thesis using False Cons.IH by (simp add: Let_def split_beta)
  qed
qed

lemma prefix_delete_rows: "prefix hist (snd (delete_rows now i rows hist))"
proof (induction rows arbitrary: hist)
  case Nil
  then show ?case by simp
next
  case (Cons r rows)
  have "prefix hist (tasks_delete_trigger now r hist)"
    by (simp add: tasks_delete_trigger_def)
  then show ?case
    using Cons.IH [of hist] Cons.IH [of "tasks_delete_trigger now r hist"]
    by (auto simp: Let_def split_beta intro: prefix_order.trans)
qed

subsection \<open>The history log under each statement\<close>

lemma prefix_insert_into_tasks:
  "prefix (tasks_history conn) (tasks_history (snd (insert_into_tasks now key ti de st pr conn)))"
  by (simp add: insert_into_tasks_def tasks_insert_trigger_def Let_def split: option.splits)

lemma prefix_update_tasks:
  "prefix (tasks_history conn) (tasks_history (update_tasks now i f conn))"
  using prefix_update_rows [of "tasks_history conn" now i f "tasks conn"]
  by (simp add: update_tasks_def split_beta)

lemma prefix_delete_from_tasks:
  "prefix (tasks_history conn) (tasks_history (delete_from_tasks now i conn))"
  using prefix_delete_rows [of "tasks_history conn" now i "tasks conn"]
  by (simp add: delete_from_tasks_def split_beta)

lemma prefix_update_task:
  "prefix (tasks_history conn) (tasks_history (snd (update_task conn now i ti de st pr)))"
  by (simp add: update_task_def prefix_update_tasks)

lemma prefix_restore_task_version:
  "prefix (tasks_history conn) (tasks_history (snd (restore_task_version conn now hid)))"
proof (cases "sqlite_integer hid \<and> select_history conn hid \<noteq> None")
  case False
  then show ?thesis by (auto simp: restore_task_version_def)
next
  case True
  then obtain h where fits: "sqlite_integer hid" and Some: "select_history conn hid = Some h"
    by auto
  show ?thesis
  proof (cases "select_task conn (task_id h) = None")
    case True
    obtain res conn' where ins:
      "insert_into_tasks now (Some (task_id h)) (Some (title h)) (description h) (status h)
         (priority h) conn = (res, conn')"
      by (cases "insert_into_tasks now (Some (task_id h)) (Some (title h)) (description h)
         (status h) (priority h) conn")
    have "prefix (tasks_history conn) (tasks_history conn')"
      using prefix_insert_into_tasks [of conn now "Some (task_id h)" "Some (title h)"
          "description h" "status h" "priority h"] ins by simp
    then show ?thesis using fits Some True ins
      by (cases res) (simp_all add: restore_task_version_def)
  next
    case False
    then obtain row where "select_task conn (task_id h) = Some row" by auto
    then show ?thesis using fits Some
      by (simp add: restore_task_version_def prefix_update_tasks)
  qed
qed

lemma prefix_execute: "prefix (tasks_history conn) (tasks_history (execute c conn))"
proof (cases c)
  case (Pair now cmd)
  show ?thesis
  proof (cases cmd)
    case (Add ti de st pr)
    then show ?thesis using Pair by (simp add: add_task_def prefix_insert_into_tasks)
  next
    case (Edit i ti de st pr)
    then show ?thesis using Pair by (simp add: prefix_update_task)
  next
    case (Complete i)
    then show ?thesis using Pair by (simp add: complete_task_def prefix_update_task)
  next
    case (Delete i)
    then show ?thesis using Pair by (simp add: delete_task_def prefix_delete_from_tasks)
  next
    case (ListTasks s)
    then show ?thesis using Pair by simp
  next
    case (History i)
    then show ?thesis using Pair by simp
  next
    case (Restore hid)
    then show ?thesis using Pair by (simp add: prefix_restore_task_version)
  qed
qed

lemma prefix_run: "prefix (tasks_history conn) (tasks_history (run cmds conn))"
proof (induction cmds arbitrary: conn)
  case Nil
  then show ?case by (simp add: run_def)
next
  case (Cons c cmds)
  have "prefix (tasks_history conn) (tasks_history (execute c conn))"
    by (rule prefix_execute)
  also have "prefix (tasks_history (execute c conn)) (tasks_history (run cmds (execute c conn)))"
    by (rule Cons.IH)
  finally show ?case by (simp add: run_def)
qed

lemma select_history_None:
  "hid \<notin> set (map history_id (tasks_history conn)) \<Longrightarrow> select_history conn hid = None"
  by (auto simp: select_history_def find_None_iff)

subsection \<open>Evaluating the scenario\<close>

lemmas statement_defs =
  add_task_def update_task_def complete_task_def delete_task_def restore_task_version_def
  insert_into_tasks_def update_tasks_def delete_from_tasks_def select_task_def
  select_history_def set_fields_def restore_fields_def next_rowid_def
  tasks_insert_trigger_def tasks_update_trigger_def tasks_delete_trigger_def
  create_database_def run_def sqlite_integer_def

lemma scenario_live_eq:
  "scenario_live =
     \<lparr>tasks =
        [\<lparr>title = ''Buy milk'', description = Some ''2%'', status = Some ''completed'',
          priority = Some ''high'', id' = 1, created_at = 10, updated_at = 11\<rparr>],
      tasks_history =
        [\<lparr>title = ''Buy milk'', description = Some ''2%'', status = Some ''pending'',
          priority = Some ''high'', history_id = 1, task_id = 1, operation = ''INSERT'',
          changed_at = 10\<rparr>,
         \<lparr>title = ''Buy milk'', description = Some ''2%'', status = Some ''completed'',
          priority = Some ''high'', history_id = 2, task_id = 1, operation = ''UPDATE'',
          changed_at = 11\<rparr>]\<rparr>"
  by (simp add: scenario_live_def statement_defs)

lemma scenario_deleted_eq:
  "scenario_deleted =
     \<lparr>tasks = [],
      tasks_history =
        [\<lparr>title = ''Buy milk'', description = Some ''2%'', status = Some ''pending'',
          priority = Some ''high'', history_id = 1, task_id = 1, operation = ''INSERT'',
          changed_at = 10\<rparr>,
         \<lparr>title = ''Buy milk'', description = Some ''2%'', status = Some ''completed'',
          priority = Some ''high'', history_id = 2, task_id = 1, operation = ''UPDATE'',
          changed_at = 11\<rparr>,
         \<lparr>title = ''Buy milk'', description = Some ''2%'', status = Some ''completed'',
          priority = Some ''high'', history_id = 3, task_id = 1, operation = ''DELETE'',
          changed_at = 12\<rparr>]\<rparr>"
  by (simp add: scenario_deleted_def scenario_live_eq statement_defs)

subsection \<open>The exact effect of each statement\<close>

lemma insert_into_tasks_fresh:
  "k \<notin> set (map id' (tasks conn)) \<Longrightarrow>
   insert_into_tasks now (Some k) (Some t) de st pr conn =
     (Inr k,
      conn\<lparr>tasks := tasks conn @
                [\<lparr>title = t, description = de, status = st, priority = pr,
                  id' = k, created_at = now, updated_at = now\<rparr>],
           tasks_history := tasks_history conn @
                [\<lparr>title = t, description = de, status = st, priority = pr,
                  history_id = next_rowid (map history_id (tasks_history conn)),
                  task_id = k, operation = ''INSERT'', changed_at = now\<rparr>]\<rparr>)"
  by (simp add: insert_into_tasks_def tasks_insert_trigger_def Let_def)

lemma add_task_Some:
  "add_task conn now (Some t) de st pr =
     (Inr (next_rowid (map id' (tasks conn))),
      conn\<lparr>tasks := tasks conn @
                [\<lparr>title = t, description = de, status = st, priority = pr,
                  id' = next_rowid (map id' (tasks conn)), created_at = now,
                  updated_at = now\<rparr>],
           tasks_history := tasks_history conn @
                [\<lparr>title = t, description = de, status = st, priority = pr,
                  history_id = next_rowid (map history_id (tasks_history conn)),
                  task_id = next_rowid (map id' (tasks conn)), operation = ''INSERT'',
                  changed_at = now\<rparr>]\<rparr>)"
  using next_rowid_fresh [of "map id' (tasks conn)"]
  by (simp add: add_task_def insert_into_tasks_def tasks_insert_trigger_def Let_def)

lemma add_task_None: "add_task conn now None de st pr = (Inl IntegrityError, conn)"
  by (simp add: add_task_def insert_into_tasks_def)

lemma update_tasks_result:
  assumes "distinct (map id' (tasks conn))" and "select_task conn i = Some row"
  shows "update_tasks now i f conn =
     conn\<lparr>tasks := map (\<lambda>r. if id' r = i then f r else r) (tasks conn),
          tasks_history := tasks_history conn @
            [\<lparr>title = title (f row), description = description (f row),
              status = status (f row), priority = priority (f row),
              history_id = next_rowid (map history_id (tasks_history conn)),
              task_id = id' (f row), operation = ''UPDATE'', changed_at = now\<rparr>]\<rparr>"
proof -
  have "fst (update_rows now i f (tasks conn) (tasks_history conn)) =
      map (\<lambda>r. if id' r = i then f r else r) (tasks conn)"
    by (rule fst_update_rows)
  moreover have "snd (update_rows now i f (tasks conn) (tasks_history conn)) =
      tasks_update_trigger now (f row) (tasks_history conn)"
    using assms by (simp add: snd_update_rows select_task_def)
  ultimately show ?thesis
    by (simp add: update_tasks_def split_beta tasks_update_trigger_def)
qed

lemma delete_from_tasks_result:
  assumes "distinct (map id' (tasks conn))" and "select_task conn i = Some row"
  shows "delete_from_tasks now i conn =
     conn\<lparr>tasks := filter (\<lambda>r. id' r \<noteq> i) (tasks conn),
          tasks_history := tasks_history conn @
            [\<lparr>title = title row, description = description row,
              status = status row, priority = priority row,
              history_id = next_rowid (map history_id (tasks_history conn)),
              task_id = id' row, operation = ''DELETE'', changed_at = now\<rparr>]\<rparr>"
proof -
  have "fst (delete_rows now i (tasks conn) (tasks_history conn)) =
      filter (\<lambda>r. id' r \<noteq> i) (tasks conn)"
    by (rule fst_delete_rows)
  moreover have "snd (delete_rows now i (tasks conn) (tasks_history conn)) =
      tasks_delete_trigger now row (tasks_history conn)"
    using assms by (simp add: snd_delete_rows select_task_def)
  ultimately show ?thesis
    by (simp add: delete_from_tasks_def split_beta tasks_delete_trigger_def)
qed

lemma find_id_map:
  "find (\<lambda>r. id' r = i) rows = Some row \<Longrightarrow> id' (f row) = i \<Longrightarrow>
   find (\<lambda>r. id' r = i) (map (\<lambda>r. if id' r = i then f r else r) rows) = Some (f row)"
  by (induction rows) (auto split: if_splits)

lemma find_id_filter:
  "find (\<lambda>r. id' r = i) (filter (\<lambda>r. id' r \<noteq> i) rows) = None"
  by (simp add: find_None_iff)

lemma find_id_append_new:
  "i \<notin> set (map id' rows) \<Longrightarrow> id' row = i \<Longrightarrow>
   find (\<lambda>r. id' r = i) (rows @ [row]) = Some row"
  by (induction rows) auto

lemma find_history_distinct:
  "distinct (map history_id hist) \<Longrightarrow> h \<in> set hist \<Longrightarrow>
   find (\<lambda>g. history_id g = history_id h) hist = Some h"
  by (induction hist) (auto simp: rev_image_eqI)

lemma id_set_fields [simp]: "id' (set_fields now ti de st pr row) = id' row"
  by (simp add: set_fields_def)

lemma id_restore_fields [simp]: "id' (restore_fields now h row) = id' row"
  by (simp add: restore_fields_def)

subsection \<open>The exact effect of each operation\<close>

lemma select_task_Some:
  "select_task conn i = Some row \<Longrightarrow> row \<in> set (tasks conn) \<and> id' row = i"
  unfolding select_task_def by (rule find_id_Some)

lemma update_task_result:
  assumes "distinct (map id' (tasks conn))" and "select_task conn i = Some row"
    and "\<not> (ti = None \<and> de = None \<and> st = None \<and> pr = None)"
    and "sqlite_integer i"
  shows "update_task conn now i ti de st pr =
     (Inr (),
      conn\<lparr>tasks := map (\<lambda>r. if id' r = i then set_fields now ti de st pr r else r)
                        (tasks conn),
           tasks_history := tasks_history conn @
             [\<lparr>title = title (set_fields now ti de st pr row),
               description = description (set_fields now ti de st pr row),
               status = status (set_fields now ti de st pr row),
               priority = priority (set_fields now ti de st pr row),
               history_id = next_rowid (map history_id (tasks_history conn)),
               task_id = i, operation = ''UPDATE'', changed_at = now\<rparr>]\<rparr>)"
proof -
  have "id' row = i" using select_task_Some [OF assms(2)] by simp
  then show ?thesis
    using assms update_tasks_result [OF assms(1,2), of now "set_fields now ti de st pr"]
    by (simp add: update_task_def)
qed

lemma update_task_Inr:
  "update_task conn now i ti de st pr = (Inr u, conn') \<Longrightarrow>
   (\<exists>row. select_task conn i = Some row) \<and>
   \<not> (ti = None \<and> de = None \<and> st = None \<and> pr = None) \<and> sqlite_integer i"
  by (auto simp: update_task_def split: if_splits)

lemma delete_task_result:
  assumes "distinct (map id' (tasks conn))" and "select_task conn i = Some row"
    and "sqlite_integer i"
  shows "delete_task conn now i =
     (Inr (),
      conn\<lparr>tasks := filter (\<lambda>r. id' r \<noteq> i) (tasks conn),
           tasks_history := tasks_history conn @
             [\<lparr>title = title row, description = description row, status = status row,
               priority = priority row,
               history_id = next_rowid (map history_id (tasks_history conn)),
               task_id = i, operation = ''DELETE'', changed_at = now\<rparr>]\<rparr>)"
proof -
  have "id' row = i" using select_task_Some [OF assms(2)] by simp
  then show ?thesis
    using assms delete_from_tasks_result [OF assms(1,2), of now]
    by (simp add: delete_task_def)
qed

lemma delete_task_Inr:
  "delete_task conn now i = (Inr u, conn') \<Longrightarrow>
   (\<exists>row. select_task conn i = Some row) \<and> sqlite_integer i"
  by (auto simp: delete_task_def split: if_splits)

lemma find_id_unique:
  "distinct (map id' rows) \<Longrightarrow> find (\<lambda>r. id' r = i) rows = Some row \<Longrightarrow>
   r \<in> set rows \<Longrightarrow> id' r = i \<Longrightarrow> r = row"
  by (induction rows) (auto split: if_splits simp: rev_image_eqI)

lemma map_update_only_row:
  assumes "distinct (map id' rows)" and "find (\<lambda>r. id' r = i) rows = Some row"
  shows "map (\<lambda>r. if id' r = i then f r else r) rows =
         map (\<lambda>r. if id' r = i then f row else r) rows"
  using find_id_unique [OF assms] by (intro map_cong) auto

lemma select_history_distinct:
  "distinct (map history_id (tasks_history conn)) \<Longrightarrow> h \<in> set (tasks_history conn) \<Longrightarrow>
   select_history conn (history_id h) = Some h"
  unfolding select_history_def by (rule find_history_distinct)

lemma select_task_None: "select_task conn i = None \<longleftrightarrow> i \<notin> set (map id' (tasks conn))"
  unfolding select_task_def by (rule find_id_None)

lemma restore_absent_result:
  assumes "select_history conn hid = Some h" and "select_task conn (task_id h) = None"
    and "sqlite_integer hid"
  shows "restore_task_version conn now hid =
     (Inr (),
      conn\<lparr>tasks := tasks conn @
                [\<lparr>title = title h, description = description h, status = status h,
                  priority = priority h, id' = task_id h, created_at = now,
                  updated_at = now\<rparr>],
           tasks_history := tasks_history conn @
                [\<lparr>title = title h, description = description h, status = status h,
                  priority = priority h,
                  history_id = next_rowid (map history_id (tasks_history conn)),
                  task_id = task_id h, operation = ''INSERT'', changed_at = now\<rparr>]\<rparr>)"
proof -
  have "task_id h \<notin> set (map id' (tasks conn))"
    using assms(2) by (simp add: select_task_None)
  then show ?thesis
    using assms by (simp add: restore_task_version_def insert_into_tasks_fresh)
qed

lemma restore_present_result:
  assumes "distinct (map id' (tasks conn))"
    and "select_history conn hid = Some h" and "select_task conn (task_id h) = Some row"
    and "sqlite_integer hid"
  shows "restore_task_version conn now hid =
     (Inr (),
      conn\<lparr>tasks := map (\<lambda>r. if id' r = task_id h then restore_fields now h row else r)
                        (tasks conn),
           tasks_history := tasks_history conn @
                [\<lparr>title = title h, description = description h, status = status h,
                  priority = priority h,
                  history_id = next_rowid (map history_id (tasks_history conn)),
                  task_id = task_id h, operation = ''UPDATE'', changed_at = now\<rparr>]\<rparr>)"
proof -
  have i: "id' row = task_id h" using select_task_Some [OF assms(3)] by simp
  have m: "map (\<lambda>r. if id' r = task_id h then restore_fields now h r else r) (tasks conn) =
           map (\<lambda>r. if id' r = task_id h then restore_fields now h row else r) (tasks conn)"
    using assms(1,3) by (intro map_update_only_row) (simp_all add: select_task_def)
  show ?thesis
    using assms(2,3,4) i m
      update_tasks_result [OF assms(1,3), of now "restore_fields now h"]
    by (simp add: restore_task_version_def restore_fields_def)
qed

lemma clock_set_back_eq:
  "clock_set_back =
     \<lparr>tasks =
        [\<lparr>title = ''Buy milk'', description = Some ''2%'', status = Some ''completed'',
          priority = Some ''high'', id' = 1, created_at = 10, updated_at = 5\<rparr>],
      tasks_history =
        [\<lparr>title = ''Buy milk'', description = Some ''2%'', status = Some ''pending'',
          priority = Some ''high'', history_id = 1, task_id = 1, operation = ''INSERT'',
          changed_at = 10\<rparr>,
         \<lparr>title = ''Buy milk'', description = Some ''2%'', status = Some ''completed'',
          priority = Some ''high'', history_id = 2, task_id = 1, operation = ''UPDATE'',
          changed_at = 5\<rparr>]\<rparr>"
  by (simp add: clock_set_back_def statement_defs)

subsection \<open>The store and the log agree after every operation\<close>

lemma latest_record_append:
  "\<forall>g \<in> set hs. history_id g < history_id r \<Longrightarrow>
   latest_record i (hs @ [r]) = (if task_id r = i then Some r else latest_record i hs)"
  by (induction hs) (auto split: option.splits)

lemma latest_record_Some:
  "latest_record i hs = Some h \<Longrightarrow>
   h \<in> set hs \<and> task_id h = i \<and> (\<forall>g \<in> set hs. task_id g = i \<longrightarrow> history_id g \<le> history_id h)"
proof (induction hs arbitrary: h)
  case Nil
  then show ?case by simp
next
  case (Cons a hs)
  show ?case
  proof (cases "latest_record i hs")
    case None
    then have "\<forall>g \<in> set hs. task_id g \<noteq> i"
    proof (induction hs)
      case Nil
      then show ?case by simp
    next
      case (Cons b hs)
      then show ?case by (auto split: option.splits if_splits)
    qed
    then show ?thesis using Cons.prems None by (auto split: if_splits)
  next
    case (Some g)
    then show ?thesis using Cons.prems Cons.IH [OF Some]
      by (auto split: if_splits)
  qed
qed

lemma history_ids_below_next:
  "\<forall>g \<in> set hist. history_id g < next_rowid (map history_id hist)"
  by (simp add: next_rowid_greater)

lemma sorted_history_ids_append:
  "sorted_wrt (<) (map history_id hist) \<Longrightarrow>
   history_id r = next_rowid (map history_id hist) \<Longrightarrow>
   sorted_wrt (<) (map history_id (hist @ [r]))"
  using history_ids_below_next [of hist] by (simp add: sorted_wrt_append)

lemma faithful_append:
  assumes inv: "faithful conn"
    and r: "history_id r = next_rowid (map history_id (tasks_history conn))"
    and d: "distinct (map id' rows)"
    and rows: "\<forall>t \<in> set rows.
        (id' t = task_id r \<and> snapshot_of r = snapshot_of t \<and> operation r \<noteq> ''DELETE'') \<or>
        (id' t \<noteq> task_id r \<and> t \<in> set (tasks conn))"
  shows "faithful (conn\<lparr>tasks := rows, tasks_history := tasks_history conn @ [r]\<rparr>)"
proof -
  have below: "\<forall>g \<in> set (tasks_history conn). history_id g < history_id r"
    using r history_ids_below_next [of "tasks_history conn"] by simp
  have s: "sorted_wrt (<) (map history_id (tasks_history conn @ [r]))"
    using inv r by (intro sorted_history_ids_append) (simp_all add: faithful_def)
  have "case latest_record (id' t) (tasks_history conn @ [r]) of
          None \<Rightarrow> False
        | Some h \<Rightarrow> snapshot_of h = snapshot_of t \<and> operation h \<noteq> ''DELETE''"
    if t: "t \<in> set rows" for t
  proof (cases "id' t = task_id r")
    case True
    then show ?thesis using rows t latest_record_append [OF below, of "id' t"] by auto
  next
    case False
    then have "t \<in> set (tasks conn)" using rows t by auto
    then have "case latest_record (id' t) (tasks_history conn) of
          None \<Rightarrow> False
        | Some h \<Rightarrow> snapshot_of h = snapshot_of t \<and> operation h \<noteq> ''DELETE''"
      using inv by (simp add: faithful_def)
    then show ?thesis using False latest_record_append [OF below, of "id' t"] by simp
  qed
  then show ?thesis using d s by (simp add: faithful_def)
qed

lemma faithful_create_database: "faithful create_database"
  by (simp add: faithful_def create_database_def)

lemma faithful_insert:
  assumes inv: "faithful conn" and fresh: "k \<notin> set (map id' (tasks conn))"
  shows "faithful
     (conn\<lparr>tasks := tasks conn @
                [\<lparr>title = t, description = de, status = st, priority = pr,
                  id' = k, created_at = now, updated_at = now\<rparr>],
           tasks_history := tasks_history conn @
                [\<lparr>title = t, description = de, status = st, priority = pr,
                  history_id = next_rowid (map history_id (tasks_history conn)),
                  task_id = k, operation = ''INSERT'', changed_at = now\<rparr>]\<rparr>)"
proof (rule faithful_append [OF inv])
  show "distinct (map id' (tasks conn @
                [\<lparr>title = t, description = de, status = st, priority = pr,
                  id' = k, created_at = now, updated_at = now\<rparr>]))"
    using inv fresh by (simp add: faithful_def)
qed (use fresh in \<open>auto simp: snapshot_of_def\<close>)

lemma faithful_add_task:
  "faithful conn \<Longrightarrow> faithful (snd (add_task conn now ti de st pr))"
proof (cases ti)
  case None
  assume "faithful conn"
  then show ?thesis using None by (simp add: add_task_None)
next
  case (Some t)
  assume "faithful conn"
  then show ?thesis
    using Some faithful_insert [OF _ next_rowid_fresh [of "map id' (tasks conn)"]]
    by (simp add: add_task_Some)
qed

lemma faithful_update_tasks:
  assumes inv: "faithful conn" and row: "select_task conn i = Some row"
    and f: "\<And>r. id' (f r) = id' r"
  shows "faithful (update_tasks now i f conn)"
proof -
  have d: "distinct (map id' (tasks conn))" using inv by (simp add: faithful_def)
  have i: "id' row = i" using select_task_Some [OF row] by simp
  let ?rows = "map (\<lambda>r. if id' r = i then f row else r) (tasks conn)"
  let ?r = "\<lparr>title = title (f row), description = description (f row),
              status = status (f row), priority = priority (f row),
              history_id = next_rowid (map history_id (tasks_history conn)),
              task_id = id' (f row), operation = ''UPDATE'', changed_at = now\<rparr>"
  have m: "map (\<lambda>r. if id' r = i then f r else r) (tasks conn) = ?rows"
    using d row by (intro map_update_only_row) (simp_all add: select_task_def)
  have ids: "map id' ?rows = map id' (tasks conn)"
    using f i by (auto intro: map_cong [OF refl])
  have "faithful (conn\<lparr>tasks := ?rows, tasks_history := tasks_history conn @ [?r]\<rparr>)"
  proof (rule faithful_append [OF inv])
    show "distinct (map id' ?rows)" unfolding ids by (rule d)
    show "\<forall>t \<in> set ?rows.
        (id' t = task_id ?r \<and> snapshot_of ?r = snapshot_of t \<and> operation ?r \<noteq> ''DELETE'') \<or>
        (id' t \<noteq> task_id ?r \<and> t \<in> set (tasks conn))"
      using f i by (auto simp: snapshot_of_def)
  qed simp
  then show ?thesis using update_tasks_result [OF d row, of now f] m by simp
qed

lemma faithful_update_task:
  assumes "faithful conn"
  shows "faithful (snd (update_task conn now i ti de st pr))"
proof (cases "select_task conn i")
  case None
  then show ?thesis using assms by (simp add: update_task_def)
next
  case (Some row)
  then show ?thesis
    using assms faithful_update_tasks [OF assms Some, of "set_fields now ti de st pr" now]
    by (simp add: update_task_def)
qed

lemma delete_task_overflow:
  "\<not> sqlite_integer i \<Longrightarrow> delete_task conn now i = (Inl OverflowError, conn)"
  by (simp add: delete_task_def)

lemma restore_task_version_overflow:
  "\<not> sqlite_integer hid \<Longrightarrow> restore_task_version conn now hid = (Inl OverflowError, conn)"
  by (simp add: restore_task_version_def)

lemma faithful_delete_task:
  assumes inv: "faithful conn"
  shows "faithful (snd (delete_task conn now i))"
proof (cases "sqlite_integer i \<and> select_task conn i \<noteq> None")
  case False
  then show ?thesis using inv by (auto simp: delete_task_def)
next
  case True
  then obtain row where fits: "sqlite_integer i" and Some: "select_task conn i = Some row"
    by auto
  have d: "distinct (map id' (tasks conn))" using inv by (simp add: faithful_def)
  have i: "id' row = i" using select_task_Some [OF Some] by simp
  let ?r = "\<lparr>title = title row, description = description row, status = status row,
               priority = priority row,
               history_id = next_rowid (map history_id (tasks_history conn)),
               task_id = i, operation = ''DELETE'', changed_at = now\<rparr>"
  have "faithful (conn\<lparr>tasks := filter (\<lambda>r. id' r \<noteq> i) (tasks conn),
           tasks_history := tasks_history conn @ [?r]\<rparr>)"
  proof (rule faithful_append [OF inv])
    show "distinct (map id' (filter (\<lambda>r. id' r \<noteq> i) (tasks conn)))"
      using d by (rule distinct_map_filter)
  qed auto
  then show ?thesis using delete_task_result [OF d Some fits, of now] by simp
qed

lemma faithful_restore_task_version:
  assumes inv: "faithful conn"
  shows "faithful (snd (restore_task_version conn now hid))"
proof (cases "sqlite_integer hid \<and> select_history conn hid \<noteq> None")
  case False
  then show ?thesis using inv by (auto simp: restore_task_version_def)
next
  case True
  then obtain h where fits: "sqlite_integer hid" and rec: "select_history conn hid = Some h"
    by auto
  show ?thesis
  proof (cases "select_task conn (task_id h)")
    case None
    then have "task_id h \<notin> set (map id' (tasks conn))" by (simp add: select_task_None)
    from faithful_insert [OF inv this] show ?thesis
      using restore_absent_result [OF rec None fits, of now] by simp
  next
    case (Some row)
    then show ?thesis
      using rec fits faithful_update_tasks [OF inv Some, of "restore_fields now h" now]
      by (simp add: restore_task_version_def)
  qed
qed

lemma faithful_execute: "faithful conn \<Longrightarrow> faithful (execute c conn)"
proof (cases c)
  case (Pair now cmd)
  assume inv: "faithful conn"
  show ?thesis
  proof (cases cmd)
    case (Add ti de st pr)
    then show ?thesis using Pair inv by (simp add: faithful_add_task)
  next
    case (Edit i ti de st pr)
    then show ?thesis using Pair inv by (simp add: faithful_update_task)
  next
    case (Complete i)
    then show ?thesis using Pair inv by (simp add: complete_task_def faithful_update_task)
  next
    case (Delete i)
    then show ?thesis using Pair inv by (simp add: faithful_delete_task)
  next
    case (ListTasks s)
    then show ?thesis using Pair inv by simp
  next
    case (History i)
    then show ?thesis using Pair inv by simp
  next
    case (Restore hid)
    then show ?thesis using Pair inv by (simp add: faithful_restore_task_version)
  qed
qed

lemma faithful_run: "faithful conn \<Longrightarrow> faithful (run cmds conn)"
  unfolding run_def by (induction cmds arbitrary: conn) (simp_all add: faithful_execute)

lemma faithful_latest:
  assumes inv: "faithful conn" and t: "t \<in> set (tasks conn)"
  shows "\<exists>h. latest_record (id' t) (tasks_history conn) = Some h \<and>
     h \<in> set (tasks_history conn) \<and> task_id h = id' t \<and>
     (\<forall>g \<in> set (tasks_history conn).
        task_id g = id' t \<longrightarrow> g = h \<or> history_id g < history_id h) \<and>
     snapshot_of h = snapshot_of t \<and> operation h \<noteq> ''DELETE''"
proof -
  from inv t obtain h where h: "latest_record (id' t) (tasks_history conn) = Some h"
    and eq: "snapshot_of h = snapshot_of t" "operation h \<noteq> ''DELETE''"
    by (auto simp: faithful_def split: option.splits)
  note top = latest_record_Some [OF h]
  have "distinct (map history_id (tasks_history conn))"
    using inv by (simp add: faithful_def strict_sorted_iff)
  then have inj: "inj_on history_id (set (tasks_history conn))"
    by (simp add: distinct_map)
  have "g = h \<or> history_id g < history_id h"
    if "g \<in> set (tasks_history conn)" and "task_id g = id' t" for g
  proof (cases "history_id g = history_id h")
    case True
    then show ?thesis using inj that(1) top by (auto dest: inj_onD)
  next
    case False
    then show ?thesis using top that by force
  qed
  then show ?thesis using h eq top by blast
qed

section \<open>The properties of the specification\<close>

text \<open>
  Claim C6: no operation (create, update, complete, delete, list, history, restore)
  removes or changes a history record that is already in the log. The log before a
  command, and before any sequence of commands, is a prefix of the log after it, so
  its length never decreases; this includes deleting the task the records refer to.
\<close>

theorem history_log_only_grows:
  "prefix (tasks_history conn) (tasks_history (execute c conn)) \<and>
   prefix (tasks_history conn) (tasks_history (run cmds conn)) \<and>
   length (tasks_history conn) \<le> length (tasks_history (run cmds conn)) \<and>
   take (length (tasks_history conn)) (tasks_history (run cmds conn)) = tasks_history conn"
proof -
  have p: "prefix (tasks_history conn) (tasks_history (run cmds conn))"
    by (rule prefix_run)
  then obtain zs where "tasks_history (run cmds conn) = tasks_history conn @ zs"
    by (auto simp: prefix_def)
  then show ?thesis using p prefix_execute by simp
qed

text \<open>
  Claim C9, as stated: for every \<^verbatim>\<open>history_id\<close> that identifies no history record,
  \<^verbatim>\<open>restore_task_version\<close> fails with not-found. A \<^verbatim>\<open>history_id\<close> outside the signed
  64-bit range identifies no record either, but there the \<^verbatim>\<open>SELECT\<close> raises
  \<^verbatim>\<open>OverflowError\<close> before the not-found branch is reached.
\<close>

theorem restore_overflow_counterexample:
  "9223372036854775808 \<notin> set (map history_id (tasks_history scenario_live)) \<and>
   restore_task_version scenario_live 13 9223372036854775808 =
     (Inl OverflowError, scenario_live) \<and>
   restore_task_version scenario_live 13 9223372036854775808 \<noteq>
     (Inl NoHistoryRecordFound, scenario_live)"
  by (simp add: scenario_live_eq restore_task_version_def sqlite_integer_def)

text \<open>
  Claim C9, amended: for every \<^verbatim>\<open>history_id\<close> that identifies no history record,
  \<^verbatim>\<open>restore_task_version\<close> fails and leaves both tables as they were: it reports that
  no history record was found when the \<^verbatim>\<open>history_id\<close> fits in a signed 64-bit integer,
  and raises \<^verbatim>\<open>OverflowError\<close> when it does not.
\<close>

theorem restore_unknown_history_id:
  "hid \<notin> set (map history_id (tasks_history conn)) \<Longrightarrow>
   (sqlite_integer hid \<longrightarrow>
      restore_task_version conn now hid = (Inl NoHistoryRecordFound, conn)) \<and>
   (\<not> sqlite_integer hid \<longrightarrow>
      restore_task_version conn now hid = (Inl OverflowError, conn))"
  by (simp add: restore_task_version_def select_history_None)

theorem restore_unknown_history_id_witness:
  "7 \<notin> set (map history_id (tasks_history scenario_live)) \<and>
   sqlite_integer 7 \<and>
   restore_task_version scenario_live 13 7 = (Inl NoHistoryRecordFound, scenario_live) \<and>
   - 9223372036854775809 \<notin> set (map history_id (tasks_history scenario_live)) \<and>
   \<not> sqlite_integer (- 9223372036854775809) \<and>
   restore_task_version scenario_live 13 (- 9223372036854775809) =
     (Inl OverflowError, scenario_live)"
proof -
  have h: "7 \<notin> set (map history_id (tasks_history scenario_live))"
    by (simp add: scenario_live_eq)
  have g: "- 9223372036854775809 \<notin> set (map history_id (tasks_history scenario_live))"
    by (simp add: scenario_live_eq)
  have f: "sqlite_integer 7" "\<not> sqlite_integer (- 9223372036854775809)"
    by (simp_all add: sqlite_integer_def)
  show ?thesis
    using h g f restore_unknown_history_id [OF h, of 13]
      restore_unknown_history_id [OF g, of 13]
    by simp
qed



text \<open>
  Claim C1: every successful \<^verbatim>\<open>add_task\<close>, \<^verbatim>\<open>update_task\<close> and \<^verbatim>\<open>delete_task\<close> appends
  exactly one history record, in the same committed step as the change of the task. Its
  snapshot (title, description, status, priority) is that of the task as stored after
  the operation, or, for a delete, of the task as stored before it; its operation is
  \<^verbatim>\<open>INSERT\<close>, \<^verbatim>\<open>UPDATE\<close> or \<^verbatim>\<open>DELETE\<close>. The hypothesis is the primary key of \<^verbatim>\<open>tasks\<close>.
\<close>

theorem mutation_appends_one_record:
  assumes "distinct (map id' (tasks conn))"
  shows
    "(add_task conn now ti de st pr = (Inr k, conn') \<longrightarrow>
        (\<exists>r row. tasks_history conn' = tasks_history conn @ [r] \<and>
           operation r = ''INSERT'' \<and> task_id r = k \<and>
           select_task conn' k = Some row \<and> snapshot_of r = snapshot_of row)) \<and>
     (update_task conn now i ti de st pr = (Inr (), conn') \<longrightarrow>
        (\<exists>r row. tasks_history conn' = tasks_history conn @ [r] \<and>
           operation r = ''UPDATE'' \<and> task_id r = i \<and>
           select_task conn' i = Some row \<and> snapshot_of r = snapshot_of row)) \<and>
     (delete_task conn now i = (Inr (), conn') \<longrightarrow>
        (\<exists>r row. tasks_history conn' = tasks_history conn @ [r] \<and>
           operation r = ''DELETE'' \<and> task_id r = i \<and>
           select_task conn i = Some row \<and> select_task conn' i = None \<and>
           snapshot_of r = snapshot_of row))"
proof (intro conjI impI)
  assume a: "add_task conn now ti de st pr = (Inr k, conn')"
  then obtain t where t: "ti = Some t"
    by (cases ti) (simp_all add: add_task_None)
  have fresh: "next_rowid (map id' (tasks conn)) \<notin> set (map id' (tasks conn))"
    by (rule next_rowid_fresh)
  show "\<exists>r row. tasks_history conn' = tasks_history conn @ [r] \<and>
           operation r = ''INSERT'' \<and> task_id r = k \<and>
           select_task conn' k = Some row \<and> snapshot_of r = snapshot_of row"
    using a t find_id_append_new [OF fresh]
    by (auto simp: add_task_Some select_task_def snapshot_of_def)
next
  assume u: "update_task conn now i ti de st pr = (Inr (), conn')"
  from update_task_Inr [OF u] obtain row where
    row: "select_task conn i = Some row" and
    some: "\<not> (ti = None \<and> de = None \<and> st = None \<and> pr = None)" and
    fits: "sqlite_integer i" by blast
  have i: "id' row = i" using select_task_Some [OF row] by simp
  have "select_task conn' i = Some (set_fields now ti de st pr row)"
    using u update_task_result [OF assms row some fits, of now] find_id_map [of i "tasks conn" row
        "set_fields now ti de st pr"] row i
    by (auto simp: select_task_def)
  then show "\<exists>r row. tasks_history conn' = tasks_history conn @ [r] \<and>
           operation r = ''UPDATE'' \<and> task_id r = i \<and>
           select_task conn' i = Some row \<and> snapshot_of r = snapshot_of row"
    using u update_task_result [OF assms row some fits, of now]
    by (auto simp: snapshot_of_def)
next
  assume d: "delete_task conn now i = (Inr (), conn')"
  from delete_task_Inr [OF d] obtain row where row: "select_task conn i = Some row"
    and fits: "sqlite_integer i" by blast
  have "select_task conn' i = None"
    using d delete_task_result [OF assms row fits, of now] find_id_filter [of i "tasks conn"]
    by (auto simp: select_task_def)
  then show "\<exists>r row. tasks_history conn' = tasks_history conn @ [r] \<and>
           operation r = ''DELETE'' \<and> task_id r = i \<and>
           select_task conn i = Some row \<and> select_task conn' i = None \<and>
           snapshot_of r = snapshot_of row"
    using d row delete_task_result [OF assms row fits, of now]
    by (auto simp: snapshot_of_def)
qed

theorem mutation_appends_one_record_witness:
  "distinct (map id' (tasks scenario_live)) \<and>
   fst (add_task scenario_live 12 (Some ''Walk'') None None None) = Inr 2 \<and>
   (\<exists>r row. tasks_history (snd (add_task scenario_live 12 (Some ''Walk'') None None None)) =
        tasks_history scenario_live @ [r] \<and>
      operation r = ''INSERT'' \<and> task_id r = 2 \<and>
      select_task (snd (add_task scenario_live 12 (Some ''Walk'') None None None)) 2 = Some row \<and>
      snapshot_of r = snapshot_of row) \<and>
   fst (update_task scenario_live 12 1 (Some ''Buy tea'') None None None) = Inr () \<and>
   (\<exists>r row. tasks_history (snd (update_task scenario_live 12 1 (Some ''Buy tea'') None None None)) =
        tasks_history scenario_live @ [r] \<and>
      operation r = ''UPDATE'' \<and> task_id r = 1 \<and>
      select_task (snd (update_task scenario_live 12 1 (Some ''Buy tea'') None None None)) 1 =
        Some row \<and>
      snapshot_of r = snapshot_of row) \<and>
   fst (delete_task scenario_live 12 1) = Inr () \<and>
   (\<exists>r row. tasks_history (snd (delete_task scenario_live 12 1)) =
        tasks_history scenario_live @ [r] \<and>
      operation r = ''DELETE'' \<and> task_id r = 1 \<and>
      select_task scenario_live 1 = Some row \<and>
      select_task (snd (delete_task scenario_live 12 1)) 1 = None \<and>
      snapshot_of r = snapshot_of row)"
proof -
  have d: "distinct (map id' (tasks scenario_live))"
    by (simp add: scenario_live_eq)
  have a: "add_task scenario_live 12 (Some ''Walk'') None None None =
      (Inr 2, snd (add_task scenario_live 12 (Some ''Walk'') None None None))"
    by (simp add: scenario_live_eq statement_defs)
  have u: "update_task scenario_live 12 1 (Some ''Buy tea'') None None None =
      (Inr (), snd (update_task scenario_live 12 1 (Some ''Buy tea'') None None None))"
    by (simp add: scenario_live_eq statement_defs)
  have e: "delete_task scenario_live 12 1 = (Inr (), snd (delete_task scenario_live 12 1))"
    by (simp add: scenario_live_eq statement_defs)
  note m = mutation_appends_one_record [OF d]
  have "fst (add_task scenario_live 12 (Some ''Walk'') None None None) = Inr 2"
    using a by (metis fst_conv)
  moreover have "fst (update_task scenario_live 12 1 (Some ''Buy tea'') None None None) = Inr ()"
    using u by (metis fst_conv)
  moreover have "fst (delete_task scenario_live 12 1) = Inr ()"
    using e by (metis fst_conv)
  ultimately show ?thesis
    using d
      m [where now = 12 and ti = "Some ''Walk''" and de = None and st = None and pr = None
           and k = 2
           and conn' = "snd (add_task scenario_live 12 (Some ''Walk'') None None None)"]
      m [where now = 12 and ti = "Some ''Buy tea''" and de = None and st = None and pr = None
           and i = 1
           and conn' = "snd (update_task scenario_live 12 1 (Some ''Buy tea'') None None None)"]
      m [where now = 12 and i = 1 and conn' = "snd (delete_task scenario_live 12 1)"]
      a u e
    by blast
qed




text \<open>
  Claim C4: for every history record whose task is not in \<^verbatim>\<open>tasks\<close>,
  \<^verbatim>\<open>restore_task_version\<close> on its \<^verbatim>\<open>history_id\<close> succeeds and inserts a task under exactly
  that \<^verbatim>\<open>task_id\<close>, with the title, description, status and priority of the record and
  with \<^verbatim>\<open>created_at\<close> and \<^verbatim>\<open>updated_at\<close> set to the current time; it appends one history
  record for the recreation, and the task is found by its key afterwards. The first
  hypothesis is the primary key of \<^verbatim>\<open>tasks_history\<close>; the last says that the record's
  key, being a key stored in the table, is a signed 64-bit integer.
\<close>

theorem restore_recreates_deleted_task:
  assumes "distinct (map history_id (tasks_history conn))"
    and "h \<in> set (tasks_history conn)"
    and "select_task conn (task_id h) = None"
    and "sqlite_integer (history_id h)"
  shows "\<exists>row r conn'.
     restore_task_version conn now (history_id h) = (Inr (), conn') \<and>
     tasks conn' = tasks conn @ [row] \<and>
     tasks_history conn' = tasks_history conn @ [r] \<and>
     id' row = task_id h \<and> snapshot_of row = snapshot_of h \<and>
     created_at row = now \<and> updated_at row = now \<and>
     task_id r = task_id h \<and> snapshot_of r = snapshot_of h \<and> changed_at r = now \<and>
     select_task conn' (task_id h) = Some row"
proof -
  have s: "select_history conn (history_id h) = Some h"
    using assms(1,2) by (rule select_history_distinct)
  have fresh: "task_id h \<notin> set (map id' (tasks conn))"
    using assms(3) by (simp add: select_task_None)
  show ?thesis
    using restore_absent_result [OF s assms(3,4), of now]
      find_id_append_new [OF fresh]
    by (simp add: snapshot_of_def select_task_def)
qed

theorem restore_recreates_deleted_task_witness:
  "distinct (map history_id (tasks_history scenario_deleted)) \<and>
   second_record \<in> set (tasks_history scenario_deleted) \<and>
   sqlite_integer (history_id second_record) \<and>
   select_task scenario_deleted (task_id second_record) = None \<and>
   (\<exists>row r conn'.
     restore_task_version scenario_deleted 13 2 = (Inr (), conn') \<and>
     tasks conn' = [row] \<and>
     tasks_history conn' = tasks_history scenario_deleted @ [r] \<and>
     id' row = 1 \<and> title row = ''Buy milk'' \<and> description row = Some ''2%'' \<and>
     status row = Some ''completed'' \<and> priority row = Some ''high'' \<and>
     created_at row = 13 \<and> updated_at row = 13 \<and>
     task_id r = 1 \<and> snapshot_of r = snapshot_of second_record \<and> changed_at r = 13 \<and>
     select_task conn' 1 = Some row)"
proof -
  have d: "distinct (map history_id (tasks_history scenario_deleted))"
    by (simp add: scenario_deleted_eq)
  have m: "second_record \<in> set (tasks_history scenario_deleted)"
    by (simp add: scenario_deleted_eq second_record_def)
  have b: "sqlite_integer (history_id second_record)"
    by (simp add: second_record_def sqlite_integer_def)
  have a: "select_task scenario_deleted (task_id second_record) = None"
    by (simp add: scenario_deleted_eq second_record_def select_task_def)
  have t: "tasks scenario_deleted = []"
    by (simp add: scenario_deleted_eq)
  have f: "history_id second_record = 2" "task_id second_record = 1"
    "title second_record = ''Buy milk''" "description second_record = Some ''2%''"
    "status second_record = Some ''completed''" "priority second_record = Some ''high''"
    by (simp_all add: second_record_def)
  have "\<exists>row r conn'.
     restore_task_version scenario_deleted 13 2 = (Inr (), conn') \<and>
     tasks conn' = [row] \<and>
     tasks_history conn' = tasks_history scenario_deleted @ [r] \<and>
     id' row = 1 \<and> title row = ''Buy milk'' \<and> description row = Some ''2%'' \<and>
     status row = Some ''completed'' \<and> priority row = Some ''high'' \<and>
     created_at row = 13 \<and> updated_at row = 13 \<and>
     task_id r = 1 \<and> snapshot_of r = snapshot_of second_record \<and> changed_at r = 13 \<and>
     select_task conn' 1 = Some row"
    using restore_recreates_deleted_task [OF d m a b, of 13]
    by (auto simp: f t snapshot_of_def)
  then show ?thesis using d m a b by simp
qed

text \<open>
  Claim C5: for every history record whose task is in \<^verbatim>\<open>tasks\<close>,
  \<^verbatim>\<open>restore_task_version\<close> on its \<^verbatim>\<open>history_id\<close> overwrites the title, description, status
  and priority of that task with the record's, sets \<^verbatim>\<open>updated_at\<close> to the current time
  and keeps \<^verbatim>\<open>created_at\<close>; every other task is untouched. It appends one \<^verbatim>\<open>UPDATE\<close>
  record: the log is one longer and its old records are unchanged. The first two
  hypotheses are the primary keys of the two tables; the last says that the record's
  key, being a key stored in the table, is a signed 64-bit integer.
\<close>

theorem restore_overwrites_live_task:
  assumes "distinct (map id' (tasks conn))"
    and "distinct (map history_id (tasks_history conn))"
    and "h \<in> set (tasks_history conn)"
    and "select_task conn (task_id h) = Some row"
    and "sqlite_integer (history_id h)"
  shows "\<exists>row' r conn'.
     restore_task_version conn now (history_id h) = (Inr (), conn') \<and>
     tasks conn' = map (\<lambda>t. if id' t = task_id h then row' else t) (tasks conn) \<and>
     select_task conn' (task_id h) = Some row' \<and>
     snapshot_of row' = snapshot_of h \<and> id' row' = task_id h \<and>
     created_at row' = created_at row \<and> updated_at row' = now \<and>
     tasks_history conn' = tasks_history conn @ [r] \<and>
     operation r = ''UPDATE'' \<and> task_id r = task_id h \<and> snapshot_of r = snapshot_of h \<and>
     changed_at r = now \<and>
     length (tasks_history conn') = Suc (length (tasks_history conn)) \<and>
     take (length (tasks_history conn)) (tasks_history conn') = tasks_history conn"
proof -
  have s: "select_history conn (history_id h) = Some h"
    using assms(2,3) by (rule select_history_distinct)
  have i: "id' row = task_id h" using select_task_Some [OF assms(4)] by simp
  have f: "find (\<lambda>r. id' r = task_id h)
             (map (\<lambda>r. if id' r = task_id h then restore_fields now h row else r) (tasks conn))
           = Some (restore_fields now h row)"
    using find_id_map [of "task_id h" "tasks conn" row "\<lambda>_. restore_fields now h row"]
      assms(4) i
    by (simp add: select_task_def)
  show ?thesis
    using restore_present_result [OF assms(1) s assms(4,5), of now] f i
    by (simp add: snapshot_of_def select_task_def restore_fields_def)
qed

theorem restore_overwrites_live_task_witness:
  "distinct (map id' (tasks scenario_live)) \<and>
   distinct (map history_id (tasks_history scenario_live)) \<and>
   first_record \<in> set (tasks_history scenario_live) \<and>
   sqlite_integer (history_id first_record) \<and>
   select_task scenario_live (task_id first_record) =
     Some \<lparr>title = ''Buy milk'', description = Some ''2%'', status = Some ''completed'',
           priority = Some ''high'', id' = 1, created_at = 10, updated_at = 11\<rparr> \<and>
   (\<exists>row' r conn'.
     restore_task_version scenario_live 13 1 = (Inr (), conn') \<and>
     tasks conn' = [row'] \<and>
     status row' = Some ''pending'' \<and> title row' = ''Buy milk'' \<and> id' row' = 1 \<and>
     created_at row' = 10 \<and> updated_at row' = 13 \<and>
     tasks_history conn' = tasks_history scenario_live @ [r] \<and>
     operation r = ''UPDATE'' \<and> task_id r = 1 \<and> snapshot_of r = snapshot_of first_record \<and>
     length (tasks_history conn') = 3)"
proof -
  let ?row = "\<lparr>title = ''Buy milk'', description = Some ''2%'', status = Some ''completed'',
           priority = Some ''high'', id' = 1, created_at = 10, updated_at = 11\<rparr>"
  have d: "distinct (map id' (tasks scenario_live))"
    by (simp add: scenario_live_eq)
  have e: "distinct (map history_id (tasks_history scenario_live))"
    by (simp add: scenario_live_eq)
  have m: "first_record \<in> set (tasks_history scenario_live)"
    by (simp add: scenario_live_eq first_record_def)
  have b: "sqlite_integer (history_id first_record)"
    by (simp add: first_record_def sqlite_integer_def)
  have s: "select_task scenario_live (task_id first_record) = Some ?row"
    by (simp add: scenario_live_eq first_record_def select_task_def)
  have t: "tasks scenario_live = [?row]" "length (tasks_history scenario_live) = 2"
    by (simp_all add: scenario_live_eq)
  have f: "history_id first_record = 1" "task_id first_record = 1"
    "title first_record = ''Buy milk''" "description first_record = Some ''2%''"
    "status first_record = Some ''pending''" "priority first_record = Some ''high''"
    by (simp_all add: first_record_def)
  have "\<exists>row' r conn'.
     restore_task_version scenario_live 13 1 = (Inr (), conn') \<and>
     tasks conn' = [row'] \<and>
     status row' = Some ''pending'' \<and> title row' = ''Buy milk'' \<and> id' row' = 1 \<and>
     created_at row' = 10 \<and> updated_at row' = 13 \<and>
     tasks_history conn' = tasks_history scenario_live @ [r] \<and>
     operation r = ''UPDATE'' \<and> task_id r = 1 \<and> snapshot_of r = snapshot_of first_record \<and>
     length (tasks_history conn') = 3"
    using restore_overwrites_live_task [OF d e m s b, of 13]
    by (auto simp: f t snapshot_of_def)
  then show ?thesis using d e m s b by simp
qed

text \<open>
  Claim C10: when \<^verbatim>\<open>restore_task_version\<close> recreates a task that is not in \<^verbatim>\<open>tasks\<close>, the
  one history record it appends has operation \<^verbatim>\<open>INSERT\<close>: the row goes in through an
  \<^verbatim>\<open>INSERT\<close> statement, so the insert trigger writes the record. The hypotheses are
  the primary key of \<^verbatim>\<open>tasks_history\<close>, the absence of the task, and that the record's
  key, being a key stored in the table, is a signed 64-bit integer.
\<close>

theorem restore_recreation_logged_as_insert:
  assumes "distinct (map history_id (tasks_history conn))"
    and "h \<in> set (tasks_history conn)"
    and "select_task conn (task_id h) = None"
    and "sqlite_integer (history_id h)"
  shows "length (tasks_history (snd (restore_task_version conn now (history_id h)))) =
           Suc (length (tasks_history conn)) \<and>
         operation (last (tasks_history (snd (restore_task_version conn now (history_id h))))) =
           ''INSERT'' \<and>
         task_id (last (tasks_history (snd (restore_task_version conn now (history_id h))))) =
           task_id h"
proof -
  have s: "select_history conn (history_id h) = Some h"
    using assms(1,2) by (rule select_history_distinct)
  show ?thesis
    using restore_absent_result [OF s assms(3,4), of now] by simp
qed

theorem restore_recreation_logged_as_insert_witness:
  "distinct (map history_id (tasks_history scenario_deleted)) \<and>
   first_record \<in> set (tasks_history scenario_deleted) \<and>
   sqlite_integer (history_id first_record) \<and>
   select_task scenario_deleted (task_id first_record) = None \<and>
   length (tasks_history (snd (restore_task_version scenario_deleted 13 1))) = 4 \<and>
   operation (last (tasks_history (snd (restore_task_version scenario_deleted 13 1)))) =
     ''INSERT'' \<and>
   task_id (last (tasks_history (snd (restore_task_version scenario_deleted 13 1)))) = 1"
proof -
  have d: "distinct (map history_id (tasks_history scenario_deleted))"
    by (simp add: scenario_deleted_eq)
  have m: "first_record \<in> set (tasks_history scenario_deleted)"
    by (simp add: scenario_deleted_eq first_record_def)
  have b: "sqlite_integer (history_id first_record)"
    by (simp add: first_record_def sqlite_integer_def)
  have a: "select_task scenario_deleted (task_id first_record) = None"
    by (simp add: scenario_deleted_eq first_record_def select_task_def)
  have f: "history_id first_record = 1" "task_id first_record = 1"
    by (simp_all add: first_record_def)
  have l: "length (tasks_history scenario_deleted) = 3"
    by (simp add: scenario_deleted_eq)
  show ?thesis
    using restore_recreation_logged_as_insert [OF d m a b, of 13] d m a b
    by (simp add: f l)
qed

text \<open>
  Claim C8, as stated: \<^verbatim>\<open>get_task_history\<close> returns the records of the task in ascending
  \<^verbatim>\<open>history_id\<close> (append) order. The query orders by \<^verbatim>\<open>changed_at\<close> alone, and \<^verbatim>\<open>changed_at\<close>
  is the wall clock: when the clock is set back between two writes, the later record
  comes first.
\<close>

theorem get_task_history_clock_counterexample:
  "map history_id (filter (\<lambda>h. task_id h = 1) (tasks_history clock_set_back)) = [1, 2] \<and>
   map_sum id (map history_id) (get_task_history clock_set_back 1) = Inr [2, 1] \<and>
   map_sum id (\<lambda>rows. sorted (map history_id rows)) (get_task_history clock_set_back 1) =
     Inr False"
  by (simp add: clock_set_back_eq get_task_history_def sqlite_integer_def)

text \<open>
  Claim C8, amended: for every \<^verbatim>\<open>task_id\<close> that fits in a signed 64-bit integer,
  \<^verbatim>\<open>get_task_history\<close> returns exactly the history records whose \<^verbatim>\<open>task_id\<close> is the
  argument, in non-decreasing \<^verbatim>\<open>changed_at\<close> order, records with the same \<^verbatim>\<open>changed_at\<close> in
  the order of the log. When the \<^verbatim>\<open>changed_at\<close> values of the log never decrease (the
  clock was not set back), the result is in append order, which is ascending
  \<^verbatim>\<open>history_id\<close> order. For a \<^verbatim>\<open>task_id\<close> that does not fit, the query raises
  \<^verbatim>\<open>OverflowError\<close>.
\<close>

theorem get_task_history_order:
  "(\<not> sqlite_integer i \<longrightarrow> get_task_history conn i = Inl OverflowError) \<and>
   (sqlite_integer i \<longrightarrow>
      (\<exists>rows. get_task_history conn i = Inr rows \<and>
         mset rows = mset (filter (\<lambda>h. task_id h = i) (tasks_history conn)) \<and>
         sorted (map changed_at rows) \<and>
         filter (\<lambda>h. changed_at h = t) rows =
           filter (\<lambda>h. changed_at h = t) (filter (\<lambda>h. task_id h = i) (tasks_history conn)) \<and>
         (sorted (map changed_at (tasks_history conn)) \<longrightarrow>
            rows = filter (\<lambda>h. task_id h = i) (tasks_history conn)) \<and>
         (sorted (map changed_at (tasks_history conn)) \<and>
          sorted_wrt (<) (map history_id (tasks_history conn)) \<longrightarrow>
            sorted_wrt (<) (map history_id rows))))"
proof (intro conjI impI)
  assume "\<not> sqlite_integer i"
  then show "get_task_history conn i = Inl OverflowError"
    by (simp add: get_task_history_def)
next
  assume fits: "sqlite_integer i"
  let ?rows = "filter (\<lambda>h. task_id h = i) (tasks_history conn)"
  let ?res = "sort_key changed_at ?rows"
  have res: "get_task_history conn i = Inr ?res"
    using fits by (simp add: get_task_history_def)
  have same: "?res = ?rows" if "sorted (map changed_at (tasks_history conn))"
  proof -
    have "sorted (map changed_at ?rows)" using that by (rule sorted_filter)
    then show ?thesis by (simp add: sort_key_id_if_sorted)
  qed
  have ids: "sorted_wrt (<) (map history_id ?res)"
    if "sorted (map changed_at (tasks_history conn))"
      and "sorted_wrt (<) (map history_id (tasks_history conn))"
  proof -
    have "sorted_wrt (\<lambda>x y. history_id x < history_id y) (tasks_history conn)"
      using that(2) by (simp add: sorted_wrt_map)
    then have "sorted_wrt (\<lambda>x y. history_id x < history_id y) ?rows"
      by (rule sorted_wrt_filter)
    then show ?thesis using same [OF that(1)] by (simp add: sorted_wrt_map)
  qed
  have stable: "filter (\<lambda>h. changed_at h = t) ?res = filter (\<lambda>h. changed_at h = t) ?rows"
    by (rule sort_key_stable)
  have "mset ?res = mset ?rows \<and> sorted (map changed_at ?res)"
    by simp
  then show "\<exists>rows. get_task_history conn i = Inr rows \<and>
         mset rows = mset (filter (\<lambda>h. task_id h = i) (tasks_history conn)) \<and>
         sorted (map changed_at rows) \<and>
         filter (\<lambda>h. changed_at h = t) rows =
           filter (\<lambda>h. changed_at h = t) (filter (\<lambda>h. task_id h = i) (tasks_history conn)) \<and>
         (sorted (map changed_at (tasks_history conn)) \<longrightarrow>
            rows = filter (\<lambda>h. task_id h = i) (tasks_history conn)) \<and>
         (sorted (map changed_at (tasks_history conn)) \<and>
          sorted_wrt (<) (map history_id (tasks_history conn)) \<longrightarrow>
            sorted_wrt (<) (map history_id rows))"
    using res same ids stable by blast
qed

theorem get_task_history_order_witness:
  "sqlite_integer 1 \<and>
   sorted (map changed_at (tasks_history scenario_deleted)) \<and>
   sorted_wrt (<) (map history_id (tasks_history scenario_deleted)) \<and>
   get_task_history scenario_deleted 1 = Inr (tasks_history scenario_deleted) \<and>
   map history_id (tasks_history scenario_deleted) = [1, 2, 3] \<and>
   \<not> sqlite_integer 9223372036854775808 \<and>
   get_task_history scenario_deleted 9223372036854775808 = Inl OverflowError"
proof -
  have r: "sqlite_integer 1" "\<not> sqlite_integer 9223372036854775808"
    by (simp_all add: sqlite_integer_def)
  have c: "sorted (map changed_at (tasks_history scenario_deleted))"
    by (simp add: scenario_deleted_eq)
  have k: "sorted_wrt (<) (map history_id (tasks_history scenario_deleted))"
    by (simp add: scenario_deleted_eq)
  have f: "filter (\<lambda>h. task_id h = 1) (tasks_history scenario_deleted) =
           tasks_history scenario_deleted"
    by (simp add: scenario_deleted_eq)
  have m: "map history_id (tasks_history scenario_deleted) = [1, 2, 3]"
    by (simp add: scenario_deleted_eq)
  have 1: "get_task_history scenario_deleted 1 = Inr (tasks_history scenario_deleted)"
    using get_task_history_order [of 1 scenario_deleted] r c f by auto
  have 2: "get_task_history scenario_deleted 9223372036854775808 = Inl OverflowError"
    using get_task_history_order [of 9223372036854775808 scenario_deleted] r by blast
  show ?thesis using r c k m 1 2 by simp
qed

text \<open>
  Claim C2: after any sequence of create, update, complete, delete and restore commands
  (and listings) on a new database, every task in \<^verbatim>\<open>tasks\<close> has the title, description,
  status and priority of its most recent history record, the one with the highest
  \<^verbatim>\<open>history_id\<close> among the records with its \<^verbatim>\<open>task_id\<close>, and that record is not a
  \<^verbatim>\<open>DELETE\<close> record.
\<close>

theorem store_matches_latest_record:
  "\<forall>t \<in> set (tasks (run cmds create_database)).
     \<exists>h. latest_record (id' t) (tasks_history (run cmds create_database)) = Some h \<and>
       h \<in> set (tasks_history (run cmds create_database)) \<and> task_id h = id' t \<and>
       (\<forall>g \<in> set (tasks_history (run cmds create_database)).
          task_id g = id' t \<longrightarrow> g = h \<or> history_id g < history_id h) \<and>
       snapshot_of h = snapshot_of t \<and> operation h \<noteq> ''DELETE''"
proof
  fix t
  assume t: "t \<in> set (tasks (run cmds create_database))"
  have "faithful (run cmds create_database)"
    using faithful_create_database by (rule faithful_run)
  then show "\<exists>h. latest_record (id' t) (tasks_history (run cmds create_database)) = Some h \<and>
       h \<in> set (tasks_history (run cmds create_database)) \<and> task_id h = id' t \<and>
       (\<forall>g \<in> set (tasks_history (run cmds create_database)).
          task_id g = id' t \<longrightarrow> g = h \<or> history_id g < history_id h) \<and>
       snapshot_of h = snapshot_of t \<and> operation h \<noteq> ''DELETE''"
    using t by (rule faithful_latest)
qed

theorem store_matches_latest_record_witness:
  "\<lparr>title = ''Buy milk'', description = Some ''2%'', status = Some ''completed'',
     priority = Some ''high'', id' = 1, created_at = 10, updated_at = 11\<rparr>
     \<in> set (tasks scenario_live) \<and>
   (\<exists>h. latest_record 1 (tasks_history scenario_live) = Some h \<and>
      h \<in> set (tasks_history scenario_live) \<and> task_id h = 1 \<and> history_id h = 2 \<and>
      title h = ''Buy milk'' \<and> description h = Some ''2%'' \<and>
      status h = Some ''completed'' \<and> priority h = Some ''high'' \<and>
      operation h \<noteq> ''DELETE'')"
proof -
  let ?row = "\<lparr>title = ''Buy milk'', description = Some ''2%'', status = Some ''completed'',
     priority = Some ''high'', id' = 1, created_at = 10, updated_at = 11\<rparr>"
  have m: "?row \<in> set (tasks scenario_live)"
    by (simp add: scenario_live_eq)
  have "\<forall>t \<in> set (tasks scenario_live).
     \<exists>h. latest_record (id' t) (tasks_history scenario_live) = Some h \<and>
       h \<in> set (tasks_history scenario_live) \<and> task_id h = id' t \<and>
       (\<forall>g \<in> set (tasks_history scenario_live).
          task_id g = id' t \<longrightarrow> g = h \<or> history_id g < history_id h) \<and>
       snapshot_of h = snapshot_of t \<and> operation h \<noteq> ''DELETE''"
    unfolding scenario_live_def by (rule store_matches_latest_record)
  with m obtain h where h: "latest_record (id' ?row) (tasks_history scenario_live) = Some h"
    "h \<in> set (tasks_history scenario_live)" "task_id h = id' ?row"
    "snapshot_of h = snapshot_of ?row" "operation h \<noteq> ''DELETE''"
    by blast
  have l: "latest_record 1 (tasks_history scenario_live) = Some second_record"
    by (simp add: scenario_live_eq second_record_def)
  have "h = second_record" using h(1) l by simp
  then have "history_id h = 2" by (simp add: second_record_def)
  moreover have "title h = ''Buy milk'' \<and> description h = Some ''2%'' \<and>
      status h = Some ''completed'' \<and> priority h = Some ''high''"
    using h(4) by (simp add: snapshot_of_def)
  ultimately show ?thesis using m h by auto
qed


end
